theory Spec2Isabelle
  imports Main "HOL-Library.AList"
begin

section \<open>Strings\<close>

text \<open>
  A Python \<open>str\<close> is modelled as a \<open>string\<close>, a list of 8-bit characters. The
  character classes of the source (\<open>\d\<close> of the regular expression, the digits
  \<open>int\<close> reads) are the ASCII ones; text outside ASCII is carried as its UTF-8 bytes.
  The functions of the standard library that look at single characters of such text,
  \<open>str.strip\<close> and \<open>fnmatch\<close>, are parameters of the definitions that call them.
\<close>

abbreviation NL :: char where
  "NL \<equiv> CHR 0x0A"

text \<open>\<open>s.startswith(p)\<close>.\<close>

definition startswith :: "string \<Rightarrow> string \<Rightarrow> bool" where
  "startswith s p = (take (length p) s = p)"

text \<open>
  \<open>s.split(c)\<close> for a separator of one character: the pieces between the
  separators, so \<open>''''.split(c)\<close> is \<open>['''']\<close> and a trailing separator leaves a last
  empty piece.
\<close>

fun split_on :: "char \<Rightarrow> string \<Rightarrow> string list" where
  "split_on c [] = [[]]"
| "split_on c (x # xs) =
     (if x = c then [] # split_on c xs
      else (case split_on c xs of
              [] \<Rightarrow> [[x]]
            | l # ls \<Rightarrow> (x # l) # ls))"

definition is_digit :: "char \<Rightarrow> bool" where
  "is_digit c = (48 \<le> (of_char c :: nat) \<and> (of_char c :: nat) \<le> 57)"

definition digit_val :: "char \<Rightarrow> int" where
  "digit_val c = int (of_char c) - 48"

text \<open>
  \<open>int(s)\<close> on a non-empty string of decimal digits; the limit the interpreter sets
  on the length of such a string is not modelled.
\<close>

definition int_of_digits :: "string \<Rightarrow> int" where
  "int_of_digits s = foldl (\<lambda>a c. 10 * a + digit_val c) 0 s"

text \<open>The rest of \<open>s\<close> after the literal \<open>p\<close>, when \<open>s\<close> starts with it.\<close>

definition after_literal :: "string \<Rightarrow> string \<Rightarrow> string option" where
  "after_literal p s = (if startswith s p then Some (drop (length p) s) else None)"

section \<open>The hunk header pattern\<close>

text \<open>
  \<open>re.search(r'\@\@ \-\d+,?\d* \+(\d+),?(\d*)', line)\<close>, reduced to what the caller
  reads: group 1 of the leftmost match, or \<open>None\<close>. \<open>hunk_match_here\<close> is a match that
  starts at the head of its argument. The quantifiers are greedy and the character that
  follows each digit run in the pattern is not a digit, so a successful match takes each
  run of digits whole and backtracking finds nothing more.
\<close>

definition hunk_match_here :: "string \<Rightarrow> string option" where
  "hunk_match_here s =
     (case after_literal ''@@ -'' s of
        None \<Rightarrow> None
      | Some r1 \<Rightarrow>
          if takeWhile is_digit r1 = [] then None
          else
            (let r2 = dropWhile is_digit r1;
                 r3 = (case r2 of [] \<Rightarrow> [] | c # cs \<Rightarrow> if c = CHR '','' then cs else r2);
                 r4 = dropWhile is_digit r3
             in case after_literal '' +'' r4 of
                  None \<Rightarrow> None
                | Some r5 \<Rightarrow>
                    if takeWhile is_digit r5 = [] then None
                    else Some (takeWhile is_digit r5)))"

fun hunk_search :: "string \<Rightarrow> string option" where
  "hunk_search [] = hunk_match_here []"
| "hunk_search (c # cs) =
     (case hunk_match_here (c # cs) of
        Some g \<Rightarrow> Some g
      | None \<Rightarrow> hunk_search cs)"

section \<open>Patch position mapper\<close>

text \<open>
  The dictionary \<open>positions\<close> is an association list in insertion order;
  \<open>positions[k] = v\<close> is \<open>AList.update k v\<close>, which replaces the value of a key
  already there and appends a new key, as a Python \<open>dict\<close> does.
\<close>

type_synonym line_positions = "(int \<times> int) list"

record clp_state =
  positions :: line_positions
  position :: int
  current_line :: int
  in_hunk :: bool

text \<open>The part of the loop body of \<open>calculate_line_positions\<close> below the header test.\<close>

definition clp_count :: "string \<Rightarrow> clp_state \<Rightarrow> clp_state" where
  "clp_count line st =
     (if \<not> in_hunk st then st
      else
        (let st1 = st\<lparr>position := position st + 1\<rparr>
         in if \<not> startswith line ''-''
            then st1\<lparr>positions := AList.update (current_line st1) (position st1) (positions st1),
                     current_line := current_line st1 + 1\<rparr>
            else st1))"

text \<open>One iteration of \<open>for line in lines\<close>.\<close>

definition clp_step :: "string \<Rightarrow> clp_state \<Rightarrow> clp_state" where
  "clp_step line st =
     (if startswith line ''@@'' then
        (let st1 = st\<lparr>in_hunk := True\<rparr>
         in case hunk_search line of
              Some g \<Rightarrow> st1\<lparr>current_line := int_of_digits g, position := position st1 + 1\<rparr>
            | None \<Rightarrow> clp_count line st1)
      else clp_count line st)"

fun clp_loop :: "string list \<Rightarrow> clp_state \<Rightarrow> clp_state" where
  "clp_loop [] st = st"
| "clp_loop (line # lines) st = clp_loop lines (clp_step line st)"

definition clp_init :: clp_state where
  "clp_init = \<lparr>positions = [], position = 0, current_line = 0, in_hunk = False\<rparr>"

definition calculate_line_positions :: "string \<Rightarrow> line_positions" where
  "calculate_line_positions patch = positions (clp_loop (split_on NL patch) clp_init)"

text \<open>
  \<open>min(xs, key=key)\<close> on a non-empty list, given as its head \<open>best\<close> and
  its tail: the first of the elements with the least key.
\<close>

fun min_by :: "('a \<Rightarrow> int) \<Rightarrow> 'a \<Rightarrow> 'a list \<Rightarrow> 'a" where
  "min_by key best [] = best"
| "min_by key best (x # xs) = min_by key (if key x < key best then x else best) xs"

definition find_closest_line :: "int \<Rightarrow> line_positions \<Rightarrow> int \<Rightarrow> int option" where
  "find_closest_line target_line ps max_distance =
     (if target_line \<in> set (map fst ps) then Some target_line
      else
        (case sort (map fst ps) of
           [] \<Rightarrow> None
         | x # xs \<Rightarrow>
             (let closest_line = min_by (\<lambda>x. \<bar>x - target_line\<bar>) x xs
              in if \<bar>closest_line - target_line\<bar> \<le> max_distance then Some closest_line
                 else None)))"

text \<open>The key chosen when the target is not a key itself.\<close>

definition nearest_key :: "int \<Rightarrow> int set \<Rightarrow> int \<Rightarrow> bool" where
  "nearest_key L K k =
     (k \<in> K \<and> (\<forall>j\<in>K. \<bar>k - L\<bar> \<le> \<bar>j - L\<bar>) \<and> (\<forall>j\<in>K. \<bar>j - L\<bar> = \<bar>k - L\<bar> \<longrightarrow> k \<le> j))"

subsection \<open>Hunks\<close>

text \<open>
  A hunk as the loop reads it: a line that begins with \<open>@@\<close> and holds the header
  pattern, and the lines after it up to the next line that begins with \<open>@@\<close>.
  \<open>new_start\<close> is the number the header gives as the first line of the hunk in the
  new file; \<open>kept_lines\<close> are the lines of the body that do not begin with \<open>-\<close>,
  and \<open>hunk_range\<close> is as many line numbers from \<open>new_start\<close> on.
\<close>

definition kept_lines :: "string list \<Rightarrow> string list" where
  "kept_lines ls = filter (\<lambda>l. \<not> startswith l ''-'') ls"

definition new_start :: "string \<Rightarrow> int" where
  "new_start h = (case hunk_search h of None \<Rightarrow> 0 | Some g \<Rightarrow> int_of_digits g)"

definition hunk_header :: "string \<Rightarrow> bool" where
  "hunk_header h = (startswith h ''@@'' \<and> hunk_search h \<noteq> None)"

definition hunk_range :: "string \<times> string list \<Rightarrow> int set" where
  "hunk_range hb = {new_start (fst hb) ..< new_start (fst hb) + int (length (kept_lines (snd hb)))}"

definition hunk_lines :: "(string \<times> string list) list \<Rightarrow> string list" where
  "hunk_lines hs = concat (map (\<lambda>hb. fst hb # snd hb) hs)"

section \<open>File filter\<close>

record FileFilterConfig =
  whitelist_patterns :: "string list"
  blacklist_patterns :: "string list"

text \<open>
  \<open>FileFilterConfig.from_env\<close>. The first argument is \<open>str.strip\<close>, which removes
  the white space of Unicode at both ends of a text. The other two are what
  \<open>os.getenv\<close> finds for \<open>PR_REVIEW_WHITELIST\<close> and \<open>PR_REVIEW_BLACKLIST\<close>,
  \<open>None\<close> for a variable that is not set.
\<close>

definition getenv_default :: "string option \<Rightarrow> string \<Rightarrow> string" where
  "getenv_default v d = (case v of None \<Rightarrow> d | Some s \<Rightarrow> s)"

definition clean_patterns :: "(string \<Rightarrow> string) \<Rightarrow> string list \<Rightarrow> string list" where
  "clean_patterns strip ps = map strip (filter (\<lambda>p. strip p \<noteq> []) ps)"

definition from_env ::
    "(string \<Rightarrow> string) \<Rightarrow> string option \<Rightarrow> string option \<Rightarrow> FileFilterConfig" where
  "from_env strip env_whitelist env_blacklist =
     (let whitelist = split_on (CHR '','') (getenv_default env_whitelist []);
          blacklist = split_on (CHR '','') (getenv_default env_blacklist []);
          whitelist = clean_patterns strip whitelist;
          blacklist = clean_patterns strip blacklist;
          whitelist = (if whitelist = [] then [''*''] else whitelist)
      in \<lparr>whitelist_patterns = whitelist, blacklist_patterns = blacklist\<rparr>)"

text \<open>
  A loop \<open>for pattern in patterns: if fnmatch(filename, pattern): return ...\<close>: whether
  it returns from inside. The matcher \<open>fnmatch\<close> of the standard library is a
  parameter.
\<close>

fun first_match :: "(string \<Rightarrow> string \<Rightarrow> bool) \<Rightarrow> string \<Rightarrow> string list \<Rightarrow> bool" where
  "first_match fnm filename [] = False"
| "first_match fnm filename (pattern # patterns) =
     (if fnm filename pattern then True else first_match fnm filename patterns)"

definition should_review_file ::
    "(string \<Rightarrow> string \<Rightarrow> bool) \<Rightarrow> FileFilterConfig \<Rightarrow> string \<Rightarrow> bool" where
  "should_review_file fnm cfg filename =
     (if first_match fnm filename (blacklist_patterns cfg) then False
      else if first_match fnm filename (whitelist_patterns cfg) then True
      else False)"

subsection \<open>The standard library on ASCII text\<close>

text \<open>
  The two functions of the standard library, for the examples: they are
  \<open>str.strip\<close> and \<open>fnmatch.fnmatch\<close> on texts of ASCII characters only. On other
  text they are not: \<open>str.strip\<close> removes more white space than the ASCII one, and
  \<open>fnmatch\<close> takes a character outside ASCII as one character, where these functions
  see the bytes of its encoding. No property below is stated of them but through the
  examples.
\<close>

definition space_ascii :: "char \<Rightarrow> bool" where
  "space_ascii c =
     ((9 \<le> (of_char c :: nat) \<and> (of_char c :: nat) \<le> 13) \<or>
      (28 \<le> (of_char c :: nat) \<and> (of_char c :: nat) \<le> 32))"

definition strip_ascii :: "string \<Rightarrow> string" where
  "strip_ascii s = rev (dropWhile space_ascii (rev (dropWhile space_ascii s)))"

text \<open>
  The matcher follows \<open>fnmatch.fnmatch\<close> as CPython 3.9 to 3.12 define it, on a POSIX system, where
  \<open>os.path.normcase\<close> changes nothing: the pattern is translated to a regular
  expression that has to match the whole name. The translation is modelled by the items
  it produces: \<open>*\<close> matches any string, \<open>?\<close> any one character, \<open>[seq]\<close> one
  character of a set, any other character itself.

  A set is kept as the chunks into which the translation cuts the text between the
  brackets at the hyphens that form a range: the last character of a chunk and the first
  of the next are the ends of a range, all other characters stand for themselves.
\<close>

datatype glob_item = Star | AnyChar | Lit char | CharSet bool "string list"

text \<open>
  The index of the \<open>]\<close> that closes a set, in the text after the \<open>[\<close>; a \<open>!\<close> in
  front and a \<open>]\<close> right after it or right at the start do not close it.
\<close>

definition bracket_end :: "string \<Rightarrow> nat option" where
  "bracket_end cs =
     (let j0 = (if take 1 cs = ''!'' then 1 else 0);
          j1 = (if take 1 (drop j0 cs) = '']'' then j0 + 1 else j0);
          k = length (takeWhile (\<lambda>c. c \<noteq> CHR '']'') (drop j1 cs))
      in if j1 + k < length cs then Some (j1 + k) else None)"

text \<open>
  The chunks of the text of a set. \<open>skip\<close> counts the characters that cannot be the
  hyphen of a range: the first one (two after a \<open>!\<close>), and the two after each hyphen
  found. A hyphen found at the very end joins the chunk before it.
\<close>

fun chunks_scan :: "nat \<Rightarrow> string \<Rightarrow> string \<Rightarrow> string list \<Rightarrow> string list" where
  "chunks_scan skip cur [] acc =
     (if cur \<noteq> [] then acc @ [cur]
      else if acc = [] then []
      else butlast acc @ [last acc @ ''-''])"
| "chunks_scan skip cur (c # cs) acc =
     (if skip = 0 \<and> c = CHR ''-'' then chunks_scan 2 [] cs (acc @ [cur])
      else chunks_scan (skip - 1) (cur @ [c]) cs acc)"

text \<open>
  Empty ranges are removed from the right: where the last character of a chunk is greater
  than the first of the next, both are dropped and the two chunks become one.
\<close>

fun remove_empty_ranges :: "string list \<Rightarrow> string list" where
  "remove_empty_ranges [] = []"
| "remove_empty_ranges (c # cs) =
     (case remove_empty_ranges cs of
        [] \<Rightarrow> [c]
      | d # ds \<Rightarrow>
          if c \<noteq> [] \<and> d \<noteq> [] \<and> (of_char (hd d) :: nat) < of_char (last c)
          then (butlast c @ tl d) # ds
          else c # d # ds)"

definition set_item :: "string \<Rightarrow> glob_item" where
  "set_item stuff =
     (let chunks = remove_empty_ranges
                     (chunks_scan (if take 1 stuff = ''!'' then 2 else 1) [] stuff [])
      in if chunks = [[]] then CharSet False []
         else if chunks = [''!''] then AnyChar
         else (case chunks of
                 [] \<Rightarrow> CharSet False []
               | c # cs \<Rightarrow>
                   if take 1 c = ''!'' then CharSet True (tl c # cs)
                   else CharSet False (c # cs)))"

function translate :: "string \<Rightarrow> glob_item list" where
  "translate [] = []"
| "translate (c # cs) =
     (if c = CHR ''*'' then Star # translate cs
      else if c = CHR ''?'' then AnyChar # translate cs
      else if c = CHR ''['' then
        (case bracket_end cs of
           None \<Rightarrow> Lit (CHR ''['') # translate cs
         | Some j \<Rightarrow> set_item (take j cs) # translate (drop (Suc j) cs))
      else Lit c # translate cs)"
  by pat_completeness auto
termination
  by (relation "measure length") auto

text \<open>Whether a character is in the set the chunks stand for.\<close>

fun in_chunks :: "string list \<Rightarrow> char \<Rightarrow> bool" where
  "in_chunks [] x = False"
| "in_chunks [c] x = (x \<in> set c)"
| "in_chunks (c # d # ds) x =
     (if c = [] then x = CHR ''-'' \<or> in_chunks (d # ds) x
      else if d = [] then x \<in> set c \<or> x = CHR ''-'' \<or> in_chunks ds x
      else x \<in> set (butlast c) \<or>
           ((of_char (last c) :: nat) \<le> of_char x \<and> (of_char x :: nat) \<le> of_char (hd d)) \<or>
           in_chunks (tl d # ds) x)"

fun glob_match :: "glob_item list \<Rightarrow> string \<Rightarrow> bool" where
  "glob_match [] s = (s = [])"
| "glob_match (Star # items) [] = glob_match items []"
| "glob_match (Star # items) (x # xs) =
     (glob_match items (x # xs) \<or> glob_match (Star # items) xs)"
| "glob_match (AnyChar # items) [] = False"
| "glob_match (AnyChar # items) (x # xs) = glob_match items xs"
| "glob_match (Lit c # items) [] = False"
| "glob_match (Lit c # items) (x # xs) = (x = c \<and> glob_match items xs)"
| "glob_match (CharSet negated chunks # items) [] = False"
| "glob_match (CharSet negated chunks # items) (x # xs) =
     ((in_chunks chunks x \<noteq> negated) \<and> glob_match items xs)"

definition fnmatch_ascii :: "string \<Rightarrow> string \<Rightarrow> bool" where
  "fnmatch_ascii name pat = glob_match (translate pat) name"

section \<open>Review orchestrator\<close>

subsection \<open>Formatting\<close>

text \<open>\<open>str(n)\<close> for an integer: its decimal digits, after a minus sign when negative.\<close>

function digits_of_nat :: "nat \<Rightarrow> string" where
  "digits_of_nat n =
     (if n < 10 then [char_of (48 + n)]
      else digits_of_nat (n div 10) @ [char_of (48 + n mod 10)])"
  by pat_completeness auto
termination
  by (relation "measure id") auto

definition str_int :: "int \<Rightarrow> string" where
  "str_int n = (if n < 0 then ''-'' @ digits_of_nat (nat (- n)) else digits_of_nat (nat n))"

text \<open>\<open>sep.join(xs)\<close>.\<close>

fun join :: "string \<Rightarrow> string list \<Rightarrow> string" where
  "join sep [] = []"
| "join sep [x] = x"
| "join sep (x # y # ys) = x @ sep @ join sep (y # ys)"

text \<open>The three backquotes that fence a suggestion block.\<close>

definition fence :: string where
  "fence = [CHR 0x60, CHR 0x60, CHR 0x60]"

subsection \<open>Data\<close>

text \<open>
  A changed file of the pull request, as the hosting platform lists it. \<open>patch\<close> is
  \<open>None\<close> where the platform gives no diff; the source tests \<open>if file.patch\<close>, which
  an empty text fails too.
\<close>

record changed_file =
  filename :: string
  status :: string
  patch :: "string option"

definition has_patch :: "changed_file \<Rightarrow> bool" where
  "has_patch file = (case patch file of None \<Rightarrow> False | Some p \<Rightarrow> p \<noteq> [])"

text \<open>
  A review comment that is already on the pull request; the platform gives \<open>None\<close>
  as the position of a comment whose line is no longer part of the diff.
\<close>

record existing_comment =
  ec_path :: string
  ec_position :: "int option"
  ec_body :: string

text \<open>An entry of \<open>draft_review_comments\<close>: the keys \<open>path\<close>, \<open>position\<close>, \<open>body\<close>.\<close>

record draft_comment =
  dc_path :: string
  dc_position :: int
  dc_body :: string

text \<open>The arguments of one call of \<open>create_review\<close>, on the head commit.\<close>

record review =
  rv_comments :: "draft_comment list"
  rv_body :: string
  rv_event :: string

datatype error = JSONDecodeError | KeyError | TypeError | OtherError

text \<open>
  An element of the array the reviewer answers with. \<open>Finding line comment suggestion\<close>
  is an object with an integer \<open>line\<close>, a string \<open>comment\<close> and, when it is not
  \<open>None\<close>, a string \<open>suggestion\<close>. The other shapes are the ones on which the loop
  of \<open>run_review\<close> raises: an object with a \<open>line\<close> and no \<open>comment\<close>, an object
  with no \<open>line\<close>, and a value that is not an object. Objects whose fields have other
  types than these are not modelled.
\<close>

datatype finding =
    Finding int string "string option"
  | NoComment int
  | NoLine
  | NotAnObject

text \<open>What \<open>json.loads\<close> returns, as far as \<open>review_code\<close> looks at it.\<close>

datatype json = JNull | JBool bool | JNumber int | JString string | JArray "finding list" | JObject

text \<open>
  The collaborators, as functions: \<open>fnmatch\<close>; the fetch of a file's text at the head
  revision (\<open>get_contents\<close>, decoded); the reviewer's answer to the prompt built from a
  file's text and path, read as \<open>response.content[0].text\<close>; and \<open>json.loads\<close>. A
  call that raises is an \<open>Inl\<close>.
\<close>

record world =
  w_fnmatch :: "string \<Rightarrow> string \<Rightarrow> bool"
  w_get_contents :: "string \<Rightarrow> error + string"
  w_claude :: "string \<Rightarrow> string \<Rightarrow> error + string"
  w_loads :: "string \<Rightarrow> error + json"

subsection \<open>Existing comments\<close>

definition str_position :: "int option \<Rightarrow> string" where
  "str_position p = (case p of None \<Rightarrow> ''None'' | Some n \<Rightarrow> str_int n)"

definition comment_key :: "string \<Rightarrow> string \<Rightarrow> string" where
  "comment_key path_text position_text = path_text @ '':'' @ position_text"

fun get_existing_comments ::
    "existing_comment list \<Rightarrow> (string \<times> string) list \<Rightarrow> (string \<times> string) list" where
  "get_existing_comments [] existing = existing"
| "get_existing_comments (c # comments) existing =
     get_existing_comments comments
       (AList.update (comment_key (ec_path c) (str_position (ec_position c))) (ec_body c)
          existing)"

subsection \<open>The reviewer's answer\<close>

text \<open>
  \<open>review_code\<close>: the inner \<open>try\<close> catches \<open>JSONDecodeError\<close>, the outer one every
  exception, of the request as of the parsing.
\<close>

definition parse_review :: "(string \<Rightarrow> error + json) \<Rightarrow> string \<Rightarrow> error + finding list" where
  "parse_review loads text =
     (case loads text of
        Inl e \<Rightarrow> if e = JSONDecodeError then Inr [] else Inl e
      | Inr review_comments \<Rightarrow>
          (case review_comments of
             JArray xs \<Rightarrow> Inr xs
           | _ \<Rightarrow> Inr []))"

definition review_code :: "world \<Rightarrow> string \<Rightarrow> string \<Rightarrow> error + finding list" where
  "review_code w code file_path =
     (case w_claude w code file_path of
        Inl e \<Rightarrow> Inr []
      | Inr text \<Rightarrow>
          (case parse_review (w_loads w) text of
             Inl e \<Rightarrow> Inr []
           | Inr review_comments \<Rightarrow> Inr review_comments))"

subsection \<open>Placing the findings of a file\<close>

record run_state =
  draft_review_comments :: "draft_comment list"
  general_comments :: "string list"
  skipped_files :: "string list"
  reviewed_files :: "string list"

definition suggestion_text :: "string option \<Rightarrow> string" where
  "suggestion_text s = (case s of None \<Rightarrow> [] | Some t \<Rightarrow> t)"

definition inline_body :: "string \<Rightarrow> string option \<Rightarrow> string" where
  "inline_body comment_text s =
     comment_text @ [NL, NL] @ fence @ ''suggestion'' @ [NL] @ suggestion_text s @ [NL] @ fence"

definition general_body :: "string \<Rightarrow> int \<Rightarrow> string \<Rightarrow> string option \<Rightarrow> string" where
  "general_body name line_num comment_text s =
     ''**In file '' @ name @ '', line '' @ str_int line_num @ '':**'' @ [NL, NL]
       @ comment_text @ [NL, NL] @ fence @ ''suggestion'' @ [NL] @ suggestion_text s @ [NL] @ fence"

text \<open>
  The body of \<open>for comment in file_comments\<close>. \<open>line_positions[mapped_line]\<close> raises
  \<open>KeyError\<close> on a key that is not there.
\<close>

definition place_comment ::
    "(string \<times> string) list \<Rightarrow> changed_file \<Rightarrow> finding \<Rightarrow> run_state \<Rightarrow> error + run_state" where
  "place_comment existing_comments file c st =
     (case c of
        NotAnObject \<Rightarrow> Inl TypeError
      | NoLine \<Rightarrow> Inl KeyError
      | NoComment line_num \<Rightarrow> if has_patch file then Inl KeyError else Inr st
      | Finding line_num comment_text s \<Rightarrow>
          if has_patch file then
            (let line_positions = calculate_line_positions (the (patch file));
                 mapped_line = find_closest_line line_num line_positions 3
             in case mapped_line of
                  Some l \<Rightarrow>
                    (case map_of line_positions l of
                       None \<Rightarrow> Inl KeyError
                     | Some pos \<Rightarrow>
                         if comment_key (filename file) (str_int pos)
                              \<notin> set (map fst existing_comments)
                         then Inr (st\<lparr>draft_review_comments := draft_review_comments st @
                                 [\<lparr>dc_path = filename file, dc_position = pos,
                                   dc_body = inline_body comment_text s\<rparr>]\<rparr>)
                         else Inr st)
                | None \<Rightarrow>
                    Inr (st\<lparr>general_comments := general_comments st @
                           [general_body (filename file) line_num comment_text s]\<rparr>))
          else Inr st)"

fun place_comments ::
    "(string \<times> string) list \<Rightarrow> changed_file \<Rightarrow> finding list \<Rightarrow> run_state \<Rightarrow> error + run_state" where
  "place_comments existing_comments file [] st = Inr st"
| "place_comments existing_comments file (c # cs) st =
     (case place_comment existing_comments file c st of
        Inl e \<Rightarrow> Inl e
      | Inr st' \<Rightarrow> place_comments existing_comments file cs st')"

subsection \<open>The run\<close>

text \<open>The body of \<open>for file in changed_files\<close>.\<close>

definition review_file ::
    "world \<Rightarrow> FileFilterConfig \<Rightarrow> (string \<times> string) list \<Rightarrow> changed_file \<Rightarrow> run_state
      \<Rightarrow> error + run_state" where
  "review_file w file_filter existing_comments file st =
     (if status file = ''removed'' then Inr st
      else if \<not> should_review_file (w_fnmatch w) file_filter (filename file)
      then Inr (st\<lparr>skipped_files := skipped_files st @ [filename file]\<rparr>)
      else
        (let st1 = st\<lparr>reviewed_files := reviewed_files st @ [filename file]\<rparr>
         in case w_get_contents w (filename file) of
              Inl e \<Rightarrow> Inr st1
            | Inr content \<Rightarrow>
                if has_patch file then
                  (case review_code w content (filename file) of
                     Inl e \<Rightarrow> Inl e
                   | Inr file_comments \<Rightarrow>
                       place_comments existing_comments file file_comments st1)
                else Inr st1))"

fun review_files ::
    "world \<Rightarrow> FileFilterConfig \<Rightarrow> (string \<times> string) list \<Rightarrow> changed_file list \<Rightarrow> run_state
      \<Rightarrow> error + run_state" where
  "review_files w file_filter existing_comments [] st = Inr st"
| "review_files w file_filter existing_comments (file # files) st =
     (case review_file w file_filter existing_comments file st of
        Inl e \<Rightarrow> Inl e
      | Inr st' \<Rightarrow> review_files w file_filter existing_comments files st')"

definition run_init :: run_state where
  "run_init = \<lparr>draft_review_comments = [], general_comments = [], skipped_files = [],
     reviewed_files = []\<rparr>"

text \<open>
  The summary. Its first and its congratulating line begin with a character outside
  ASCII, held here as its UTF-8 bytes.
\<close>

definition robot :: string where
  "robot = [CHR 0xF0, CHR 0x9F, CHR 0xA4, CHR 0x96]"

definition sparkles :: string where
  "sparkles = [CHR 0xE2, CHR 0x9C, CHR 0xA8]"

definition file_lines :: "string list \<Rightarrow> string" where
  "file_lines names = concat (map (\<lambda>name. ''- '' @ name @ [NL]) names)"

definition reviewed_section :: "string list \<Rightarrow> string" where
  "reviewed_section names =
     (if names \<noteq> []
      then ''Reviewed '' @ str_int (int (length names)) @ '' files:'' @ [NL] @ file_lines names
      else [])"

definition skipped_section :: "string list \<Rightarrow> string" where
  "skipped_section names =
     (if names \<noteq> []
      then [NL] @ ''Skipped '' @ str_int (int (length names))
             @ '' files based on filter configuration:'' @ [NL] @ file_lines names
      else [])"

definition review_body :: "run_state \<Rightarrow> string" where
  "review_body st =
     robot @ '' Code Review Summary:'' @ [NL, NL]
       @ reviewed_section (reviewed_files st)
       @ skipped_section (skipped_files st)
       @ (if draft_review_comments st \<noteq> []
          then [NL] @ ''Found '' @ str_int (int (length (draft_review_comments st)))
                 @ '' suggestions for improvement.''
          else [NL] @ sparkles @ '' Great job! The code looks clean and well-written.'')
       @ (if general_comments st \<noteq> []
          then [NL, NL] @ ''### Additional Comments:'' @ [NL, NL]
                 @ join [NL, NL] (general_comments st)
          else [])"

text \<open>The end of \<open>run_review\<close>: the calls of \<open>create_review\<close> it makes.\<close>

definition submit :: "run_state \<Rightarrow> review list" where
  "submit st =
     (if draft_review_comments st \<noteq> [] \<or> general_comments st \<noteq> [] \<or> skipped_files st \<noteq> []
      then [\<lparr>rv_comments = draft_review_comments st, rv_body = review_body st,
             rv_event = ''COMMENT''\<rparr>]
      else [])"

text \<open>
  \<open>run_review\<close>, from the list of changed files and the list of review comments the
  platform has returned. The result is the exception the run ends with, or the calls of
  \<open>create_review\<close> it has made.
\<close>

definition run_review ::
    "world \<Rightarrow> FileFilterConfig \<Rightarrow> changed_file list \<Rightarrow> existing_comment list
      \<Rightarrow> error + review list" where
  "run_review w file_filter changed_files comments =
     (let existing_comments = get_existing_comments comments []
      in case review_files w file_filter existing_comments changed_files run_init of
           Inl e \<Rightarrow> Inl e
         | Inr st \<Rightarrow> Inr (submit st))"

subsection \<open>Notions used in the properties\<close>



text \<open>
  The dedup key of a draft, the key \<open>get_existing_comments\<close> gives a comment of the
  platform, and a draft as the platform lists it once the review is submitted: same path,
  same position, same body.
\<close>

definition draft_key :: "draft_comment \<Rightarrow> string" where
  "draft_key d = comment_key (dc_path d) (str_int (dc_position d))"

definition existing_key :: "existing_comment \<Rightarrow> string" where
  "existing_key c = comment_key (ec_path c) (str_position (ec_position c))"

definition posted :: "draft_comment \<Rightarrow> existing_comment" where
  "posted d = \<lparr>ec_path = dc_path d, ec_position = Some (dc_position d), ec_body = dc_body d\<rparr>"

subsection \<open>An example pull request\<close>

definition example_patch :: string where
  "example_patch =
     ''@@ -1,3 +1,4 @@'' @ [NL] @ '' line1'' @ [NL] @ ''+line2'' @ [NL] @ '' line3'' @ [NL]
       @ '' line4''"

text \<open>
  Collaborators with fixed answers: the text of \<open>gone.php\<close> cannot be fetched; the
  reviewer answers with an array of two findings for \<open>a.php\<close>, with prose for
  \<open>notes.php\<close>, an object for \<open>object.php\<close>, an empty array for \<open>clean.php\<close>
  and an array holding a number for \<open>broken.php\<close>.
\<close>

definition example_world :: world where
  "example_world =
     \<lparr>w_fnmatch = fnmatch_ascii,
      w_get_contents = (\<lambda>name. if name = ''gone.php'' then Inl OtherError else Inr ''<?php''),
      w_claude = (\<lambda>code file_path.
         if file_path = ''a.php'' then Inr ''[two findings]''
         else if file_path = ''notes.php'' then Inr ''Sure, here is my review''
         else if file_path = ''object.php'' then Inr ''{}''
         else if file_path = ''clean.php'' then Inr ''[]''
         else if file_path = ''broken.php'' then Inr ''[7]''
         else Inl OtherError),
      w_loads = (\<lambda>t.
         if t = ''[two findings]''
         then Inr (JArray [Finding 2 ''bad'' (Some ''good''), Finding 50 ''far'' None])
         else if t = ''{}'' then Inr JObject
         else if t = ''[]'' then Inr (JArray [])
         else if t = ''[7]'' then Inr (JArray [NotAnObject])
         else Inl JSONDecodeError)\<rparr>"

definition example_filter :: FileFilterConfig where
  "example_filter = from_env strip_ascii None (Some ''*.lock'')"

definition modified_file :: "string \<Rightarrow> changed_file" where
  "modified_file name = \<lparr>filename = name, status = ''modified'', patch = Some example_patch\<rparr>"

section \<open>Properties of the patch position mapper\<close>

text \<open>
  C1. On the patch of scenario A, a hunk header followed by a context line, an added
  line and two context lines, \<open>calculate_line_positions\<close> returns exactly the
  dictionary \<open>{1: 2, 2: 3, 3: 4, 4: 5}\<close>: the header takes position 1 and every
  later line the next position and the next line number of the new file.
\<close>

theorem scenario_a_positions:
  "calculate_line_positions
     (''@@ -1,3 +1,4 @@'' @ [NL] @ '' line1'' @ [NL] @ ''+line2'' @ [NL] @ '' line3'' @ [NL]
        @ '' line4'')
   = [(1, 2), (2, 3), (3, 4), (4, 5)]"
  by code_simp




lemma clp_loop_append: "clp_loop (xs @ ys) st = clp_loop ys (clp_loop xs st)"
  by (induction xs arbitrary: st) simp_all

lemma clp_step_header:
  "startswith h ''@@'' \<Longrightarrow> hunk_search h = Some g \<Longrightarrow>
     clp_step h st = st\<lparr>in_hunk := True, current_line := int_of_digits g, position := position st + 1\<rparr>"
  by (simp add: clp_step_def)







lemma clp_step_deletion:
  "startswith line ''-'' \<Longrightarrow>
     positions (clp_step line st) = positions st \<and> current_line (clp_step line st) = current_line st"
  by (cases line) (auto simp add: clp_step_def clp_count_def startswith_def Let_def)




text \<open>
  The keys of the map are, hunk by hunk, as many line numbers from the new start on as the
  body has lines that do not begin with \<open>-\<close>. In a hunk made of context lines,
  additions and deletions only, these are the lines of the new file the hunk shows.
\<close>

lemma clp_step_body:
  assumes "in_hunk st" and "\<not> startswith l ''@@''"
  shows "in_hunk (clp_step l st) \<and>
    fst ` set (positions (clp_step l st)) =
      fst ` set (positions st) \<union> {current_line st ..< current_line st + int (length (kept_lines [l]))} \<and>
    current_line (clp_step l st) = current_line st + int (length (kept_lines [l]))"
  using assms
  by (auto simp add: clp_step_def clp_count_def Let_def kept_lines_def dom_update)

lemma clp_loop_body:
  assumes "in_hunk st" and "\<forall>l\<in>set ls. \<not> startswith l ''@@''"
  shows "in_hunk (clp_loop ls st) \<and>
    fst ` set (positions (clp_loop ls st)) =
      fst ` set (positions st) \<union> {current_line st ..< current_line st + int (length (kept_lines ls))} \<and>
    current_line (clp_loop ls st) = current_line st + int (length (kept_lines ls))"
  using assms
proof (induction ls arbitrary: st)
  case Nil
  then show ?case by (simp add: kept_lines_def)
next
  case (Cons l ls)
  let ?s = "clp_step l st"
  have n: "\<not> startswith l ''@@''" using Cons.prems(2) by simp
  note a = clp_step_body [OF Cons.prems(1) n]
  have r: "\<forall>l\<in>set ls. \<not> startswith l ''@@''" using Cons.prems(2) by simp
  from a have i: "in_hunk ?s" by blast
  note b = Cons.IH [OF i r]
  have k: "length (kept_lines (l # ls)) = length (kept_lines [l]) + length (kept_lines ls)"
    by (simp add: kept_lines_def)
  from a b show ?case unfolding k by (auto simp add: clp_loop.simps)
qed

lemma clp_loop_hunk:
  assumes "hunk_header h" and "\<forall>l\<in>set b. \<not> startswith l ''@@''"
  shows "in_hunk (clp_loop (h # b) st) \<and>
    fst ` set (positions (clp_loop (h # b) st)) = fst ` set (positions st) \<union> hunk_range (h, b)"
proof -
  from assms(1) obtain g where g: "startswith h ''@@''" "hunk_search h = Some g"
    by (auto simp add: hunk_header_def)
  let ?s = "st\<lparr>in_hunk := True, current_line := int_of_digits g, position := position st + 1\<rparr>"
  have s: "clp_step h st = ?s" using g by (simp add: clp_step_header)
  have i: "in_hunk ?s" by simp
  from clp_loop_body [OF i assms(2)] s g(2) show ?thesis
    by (simp add: hunk_range_def new_start_def)
qed

lemma clp_loop_hunks:
  assumes "\<forall>hb\<in>set hs. hunk_header (fst hb) \<and> (\<forall>l\<in>set (snd hb). \<not> startswith l ''@@'')"
  shows "fst ` set (positions (clp_loop (hunk_lines hs) st)) =
    fst ` set (positions st) \<union> (\<Union>hb\<in>set hs. hunk_range hb)"
  using assms
proof (induction hs arbitrary: st)
  case Nil
  then show ?case by (simp add: hunk_lines_def)
next
  case (Cons hb hs)
  obtain h b where hb: "hb = (h, b)" by (cases hb)
  have e: "clp_loop (hunk_lines (hb # hs)) st = clp_loop (hunk_lines hs) (clp_loop (h # b) st)"
    using hb clp_loop_append [of "h # b" "hunk_lines hs" st] by (simp add: hunk_lines_def)
  have "hunk_header h" "\<forall>l\<in>set b. \<not> startswith l ''@@''" using Cons.prems hb by auto
  from clp_loop_hunk [OF this]
  have k: "fst ` set (positions (clp_loop (h # b) st)) = fst ` set (positions st) \<union> hunk_range hb"
    using hb by simp
  have r: "\<forall>hb\<in>set hs. hunk_header (fst hb) \<and> (\<forall>l\<in>set (snd hb). \<not> startswith l ''@@'')"
    using Cons.prems by simp
  from Cons.IH [OF r, of "clp_loop (h # b) st"] k show ?case
    unfolding e by auto
qed


text \<open>
  C2. The patch below is the unified diff of a two-line file whose last line \<open>b\<close>,
  without a final newline, becomes \<open>c\<close> with one: its header gives the new file the
  lines 1 and 2. The marker line \<open>\ No newline at end of file\<close> does not begin with
  \<open>-\<close>, so the loop takes it for a context line: it gets the key 2, and the added
  line \<open>c\<close>, line 2 of the new file, gets the key 3, a line the new file does not have.
  A line that does begin with \<open>-\<close> gets no entry and leaves \<open>current_line\<close> as it
  is (\<open>clp_step_deletion\<close>).
\<close>

theorem no_newline_marker_positions:
  "calculate_line_positions
     (''@@ -1,2 +1,2 @@'' @ [NL] @ '' a'' @ [NL] @ ''-b'' @ [NL]
        @ [CHR 0x5C] @ '' No newline at end of file'' @ [NL] @ ''+c'')
   = [(1, 2), (2, 4), (3, 5)]"
  by code_simp

section \<open>Properties of the nearest-line search\<close>

lemma min_by_in: "min_by key b xs \<in> set (b # xs)"
  by (induction xs arbitrary: b) auto

lemma min_by_le_best: "key (min_by key b xs) \<le> key b"
proof (induction xs arbitrary: b)
  case Nil
  then show ?case by simp
next
  case (Cons x xs)
  have "key (min_by key (if key x < key b then x else b) xs) \<le> key (if key x < key b then x else b)"
    by (rule Cons.IH)
  then show ?case by (auto split: if_splits)
qed

lemma min_by_le: "y \<in> set (b # xs) \<Longrightarrow> key (min_by key b xs) \<le> key y"
proof (induction xs arbitrary: b)
  case Nil
  then show ?case by simp
next
  case (Cons x xs)
  let ?b' = "if key x < key b then x else b"
  have le: "key (min_by key ?b' xs) \<le> key ?b'" by (rule min_by_le_best)
  from Cons.prems consider "y = b" | "y = x" | "y \<in> set xs" by auto
  then show ?case
  proof cases
    case 1
    with le show ?thesis by (auto split: if_splits)
  next
    case 2
    with le show ?thesis by (auto split: if_splits)
  next
    case 3
    then have "y \<in> set (?b' # xs)" by simp
    from Cons.IH [OF this] show ?thesis by simp
  qed
qed

lemma min_by_first:
  "sorted (b # xs) \<Longrightarrow> y \<in> set (b # xs) \<Longrightarrow> key y = key (min_by key b xs)
     \<Longrightarrow> min_by key b xs \<le> (y::int)"
proof (induction xs arbitrary: b y)
  case Nil
  then show ?case by simp
next
  case (Cons x xs)
  show ?case
  proof (cases "key x < key b")
    case True
    then have eq: "min_by key b (x # xs) = min_by key x xs" by simp
    have sx: "sorted (x # xs)" using Cons.prems(1) by simp
    have "y \<noteq> b"
    proof
      assume "y = b"
      then have "key b = key (min_by key x xs)" using Cons.prems(3) eq by simp
      moreover have "key (min_by key x xs) \<le> key x" by (rule min_by_le_best)
      ultimately show False using True by simp
    qed
    then have "y \<in> set (x # xs)" using Cons.prems(2) by auto
    from Cons.IH [OF sx this] Cons.prems(3) eq show ?thesis by simp
  next
    case False
    then have eq: "min_by key b (x # xs) = min_by key b xs" by simp
    have sb: "sorted (b # xs)" using Cons.prems(1) by auto
    show ?thesis
    proof (cases "y = x")
      case True
      have "min_by key b xs \<in> set (b # xs)" by (rule min_by_in)
      then have "min_by key b xs = b \<or> min_by key b xs \<in> set xs" by auto
      then show ?thesis
      proof
        assume "min_by key b xs = b"
        then show ?thesis using eq True Cons.prems(1) by simp
      next
        assume m: "min_by key b xs \<in> set xs"
        have ky: "key y = key (min_by key b xs)" using Cons.prems(3) eq by simp
        have "key (min_by key b xs) \<le> key b" by (rule min_by_le_best)
        then have "key x \<le> key b" using ky True by simp
        then have kxb: "key x = key b" using False by simp
        then have "key b = key (min_by key b xs)" using ky True by simp
        from Cons.IH [OF sb _ this] have "min_by key b xs \<le> b" by simp
        moreover have "b \<le> x" using Cons.prems(1) by simp
        ultimately show ?thesis using eq True by simp
      qed
    next
      case False
      then have "y \<in> set (b # xs)" using Cons.prems(2) by auto
      from Cons.IH [OF sb this] Cons.prems(3) eq show ?thesis by simp
    qed
  qed
qed

lemma nearest_key_unique: "nearest_key L K k \<Longrightarrow> nearest_key L K k' \<Longrightarrow> k = k'"
  unfolding nearest_key_def by (metis order_antisym)

lemma closest_is_nearest:
  assumes "sort (map fst M) = x # xs"
  shows "nearest_key L (fst ` set M) (min_by (\<lambda>x. \<bar>x - L\<bar>) x xs)"
proof -
  have s: "sorted (x # xs)" using assms by (metis sorted_sort)
  have e: "set (x # xs) = fst ` set M" using assms by (metis set_sort set_map)
  show ?thesis
    unfolding nearest_key_def
    using min_by_in [of "\<lambda>x. \<bar>x - L\<bar>" x xs] min_by_le [of _ x xs "\<lambda>x. \<bar>x - L\<bar>"]
      min_by_first [OF s, of _ "\<lambda>x. \<bar>x - L\<bar>"] e
    by blast
qed

lemma find_closest_line_exact:
  "L \<in> fst ` set M \<Longrightarrow> find_closest_line L M d = Some L"
  by (simp add: find_closest_line_def)

lemma find_closest_line_Some_iff:
  assumes "L \<notin> fst ` set M"
  shows "find_closest_line L M d = Some k \<longleftrightarrow> nearest_key L (fst ` set M) k \<and> \<bar>k - L\<bar> \<le> d"
proof (cases "sort (map fst M)")
  case Nil
  then have "map fst M = []" by (metis set_sort set_empty)
  then have "M = []" by simp
  then show ?thesis by (simp add: find_closest_line_def nearest_key_def)
next
  case (Cons x xs)
  let ?c = "min_by (\<lambda>x. \<bar>x - L\<bar>) x xs"
  have n: "nearest_key L (fst ` set M) ?c" by (rule closest_is_nearest [OF Cons])
  have f: "find_closest_line L M d = (if \<bar>?c - L\<bar> \<le> d then Some ?c else None)"
    using assms Cons by (simp add: find_closest_line_def)
  show ?thesis
  proof
    assume "find_closest_line L M d = Some k"
    with f have "k = ?c" "\<bar>?c - L\<bar> \<le> d" by (auto split: if_splits)
    with n show "nearest_key L (fst ` set M) k \<and> \<bar>k - L\<bar> \<le> d" by simp
  next
    assume a: "nearest_key L (fst ` set M) k \<and> \<bar>k - L\<bar> \<le> d"
    then have "k = ?c" using n nearest_key_unique by blast
    with a f show "find_closest_line L M d = Some k" by simp
  qed
qed

lemma find_closest_line_None_iff:
  assumes "L \<notin> fst ` set M"
  shows "find_closest_line L M d = None \<longleftrightarrow> (\<forall>j\<in>fst ` set M. d < \<bar>j - L\<bar>)"
proof (cases "sort (map fst M)")
  case Nil
  then have "map fst M = []" by (metis set_sort set_empty)
  then have "M = []" by simp
  then show ?thesis by (simp add: find_closest_line_def)
next
  case (Cons x xs)
  let ?c = "min_by (\<lambda>x. \<bar>x - L\<bar>) x xs"
  have n: "nearest_key L (fst ` set M) ?c" by (rule closest_is_nearest [OF Cons])
  have f: "find_closest_line L M d = (if \<bar>?c - L\<bar> \<le> d then Some ?c else None)"
    using assms Cons by (simp add: find_closest_line_def)
  show ?thesis
  proof
    assume "find_closest_line L M d = None"
    with f have "d < \<bar>?c - L\<bar>" by (auto split: if_splits)
    then show "\<forall>j\<in>fst ` set M. d < \<bar>j - L\<bar>"
      using n unfolding nearest_key_def by fastforce
  next
    assume "\<forall>j\<in>fst ` set M. d < \<bar>j - L\<bar>"
    then have "d < \<bar>?c - L\<bar>" using n unfolding nearest_key_def by blast
    with f show "find_closest_line L M d = None" by simp
  qed
qed

text \<open>
  C3. With the maximal distance 3, \<open>find_closest_line\<close> returns the target line
  itself when it is a key of the position map. When it is not, the result is \<open>Some k\<close>
  exactly for the key \<open>k\<close> that is nearest to the target, the smaller one of two
  keys at the same distance, provided that distance is at most 3; and the result is
  \<open>None\<close> exactly when every key is farther than 3 from the target, which includes the
  empty map.
\<close>

theorem find_closest_line_spec:
  "(L \<in> fst ` set M \<longrightarrow> find_closest_line L M 3 = Some L) \<and>
   (L \<notin> fst ` set M \<longrightarrow>
      (\<forall>k. find_closest_line L M 3 = Some k \<longleftrightarrow>
             k \<in> fst ` set M \<and> \<bar>k - L\<bar> \<le> 3 \<and>
             (\<forall>j\<in>fst ` set M. \<bar>k - L\<bar> \<le> \<bar>j - L\<bar> \<and> (\<bar>j - L\<bar> = \<bar>k - L\<bar> \<longrightarrow> k \<le> j))) \<and>
      (find_closest_line L M 3 = None \<longleftrightarrow> (\<forall>j\<in>fst ` set M. 3 < \<bar>j - L\<bar>)))"
proof (intro conjI impI allI)
  assume "L \<in> fst ` set M"
  then show "find_closest_line L M 3 = Some L" by (rule find_closest_line_exact)
next
  fix k
  assume "L \<notin> fst ` set M"
  from find_closest_line_Some_iff [OF this, of 3 k]
  show "find_closest_line L M 3 = Some k \<longleftrightarrow>
          k \<in> fst ` set M \<and> \<bar>k - L\<bar> \<le> 3 \<and>
          (\<forall>j\<in>fst ` set M. \<bar>k - L\<bar> \<le> \<bar>j - L\<bar> \<and> (\<bar>j - L\<bar> = \<bar>k - L\<bar> \<longrightarrow> k \<le> j))"
    unfolding nearest_key_def by blast
next
  assume "L \<notin> fst ` set M"
  then show "find_closest_line L M 3 = None \<longleftrightarrow> (\<forall>j\<in>fst ` set M. 3 < \<bar>j - L\<bar>)"
    by (rule find_closest_line_None_iff)
qed

theorem find_closest_line_spec_witness:
  "find_closest_line 5 [(3, 2), (7, 4), (12, 9)] 3 = Some 3 \<and>
   find_closest_line 7 [(3, 2), (7, 4), (12, 9)] 3 = Some 7 \<and>
   find_closest_line 50 [(3, 2), (7, 4), (12, 9)] 3 = None \<and>
   find_closest_line 50 [] 3 = None"
proof -
  have a: "find_closest_line 5 [(3, 2), (7, 4), (12, 9)] 3 = Some 3"
    using find_closest_line_spec [of 5 "[(3, 2), (7, 4), (12, 9)]"] by simp
  have b: "find_closest_line 7 [(3, 2), (7, 4), (12, 9)] 3 = Some 7"
    using find_closest_line_spec [of 7 "[(3, 2), (7, 4), (12, 9)]"] by simp
  have c: "find_closest_line 50 [(3, 2), (7, 4), (12, 9)] 3 = None"
    using find_closest_line_spec [of 50 "[(3, 2), (7, 4), (12, 9)]"] by simp
  have d: "find_closest_line 50 [] 3 = None"
    using find_closest_line_spec [of 50 "[]"] by simp
  from a b c d show ?thesis by simp
qed

section \<open>Properties of the file filter\<close>

lemma first_match_iff: "first_match fnm F ps \<longleftrightarrow> (\<exists>p\<in>set ps. fnm F p)"
  by (induction ps) auto

lemma glob_match_star: "glob_match [Star] s"
  by (induction s) simp_all

lemma fnmatch_ascii_star: "fnmatch_ascii F ''*''"
  by (simp add: fnmatch_ascii_def glob_match_star)

lemma from_env_whitelist:
  "whitelist_patterns (from_env strip w b) =
     (if clean_patterns strip (split_on (CHR '','') (getenv_default w [])) = [] then [''*'']
      else clean_patterns strip (split_on (CHR '','') (getenv_default w [])))"
  by (simp add: from_env_def Let_def)

lemma from_env_blacklist:
  "blacklist_patterns (from_env strip w b) =
     clean_patterns strip (split_on (CHR '','') (getenv_default b []))"
  by (simp add: from_env_def Let_def)

text \<open>
  C4. For every filename, filter configuration and matcher: a file that some blacklist
  pattern matches is rejected, whatever the whitelist holds; a file that no blacklist
  pattern matches is accepted exactly when some whitelist pattern matches it. The
  configuration read from the environment, for every trimming function, has as blacklist
  the trimmed, non-blank entries of its comma-separated list, and as whitelist the same of
  its own list, or the single pattern \<open>*\<close> when no entry is left; with a matcher for
  which \<open>*\<close> matches every name, as it does for \<open>fnmatch\<close>, the filter then accepts
  exactly the files that no blacklist pattern matches.
\<close>

theorem should_review_file_spec:
  "((\<exists>p\<in>set (blacklist_patterns cfg). fnm F p) \<longrightarrow> \<not> should_review_file fnm cfg F) \<and>
   (\<not> (\<exists>p\<in>set (blacklist_patterns cfg). fnm F p) \<longrightarrow>
      should_review_file fnm cfg F = (\<exists>p\<in>set (whitelist_patterns cfg). fnm F p)) \<and>
   blacklist_patterns (from_env strip w b) =
     clean_patterns strip (split_on (CHR '','') (getenv_default b [])) \<and>
   (clean_patterns strip (split_on (CHR '','') (getenv_default w [])) \<noteq> [] \<longrightarrow>
      whitelist_patterns (from_env strip w b) =
        clean_patterns strip (split_on (CHR '','') (getenv_default w []))) \<and>
   (clean_patterns strip (split_on (CHR '','') (getenv_default w [])) = [] \<longrightarrow>
      whitelist_patterns (from_env strip w b) = [''*''] \<and>
      ((\<forall>name. fnm name ''*'') \<longrightarrow>
         should_review_file fnm (from_env strip w b) F =
           (\<not> (\<exists>p\<in>set (blacklist_patterns (from_env strip w b)). fnm F p))))"
proof -
  have a: "(\<exists>p\<in>set (blacklist_patterns cfg). fnm F p) \<longrightarrow> \<not> should_review_file fnm cfg F"
    by (simp add: should_review_file_def first_match_iff)
  have b: "\<not> (\<exists>p\<in>set (blacklist_patterns cfg). fnm F p) \<longrightarrow>
      should_review_file fnm cfg F = (\<exists>p\<in>set (whitelist_patterns cfg). fnm F p)"
    by (simp add: should_review_file_def first_match_iff)
  have c: "clean_patterns strip (split_on (CHR '','') (getenv_default w [])) = [] \<longrightarrow>
      (\<forall>name. fnm name ''*'') \<longrightarrow>
      should_review_file fnm (from_env strip w b) F =
        (\<not> (\<exists>p\<in>set (blacklist_patterns (from_env strip w b)). fnm F p))"
    by (simp add: should_review_file_def first_match_iff from_env_whitelist)
  from a b c show ?thesis
    by (simp add: from_env_whitelist from_env_blacklist)
qed

theorem should_review_file_spec_witness:
  "\<not> should_review_file fnmatch_ascii (from_env strip_ascii (Some ''*'') (Some ''*.lock''))
       ''package.lock'' \<and>
   should_review_file fnmatch_ascii (from_env strip_ascii (Some ''*'') (Some ''*.lock''))
       ''package.json'' \<and>
   whitelist_patterns (from_env strip_ascii (Some '' , '') (Some ''*.lock, docs/*'')) = [''*''] \<and>
   blacklist_patterns (from_env strip_ascii (Some '' , '') (Some ''*.lock, docs/*'')) =
     [''*.lock'', ''docs/*''] \<and>
   should_review_file fnmatch_ascii (from_env strip_ascii (Some '' , '') (Some ''*.lock, docs/*''))
       ''src/a.php'' \<and>
   should_review_file fnmatch_ascii (from_env strip_ascii None None) ''README.md''"
proof -
  let ?c = "from_env strip_ascii (Some ''*'') (Some ''*.lock'')"
  let ?d = "from_env strip_ascii (Some '' , '') (Some ''*.lock, docs/*'')"
  let ?e = "from_env strip_ascii None None"
  have c: "?c = \<lparr>whitelist_patterns = [''*''], blacklist_patterns = [''*.lock'']\<rparr>"
    by code_simp
  have star: "\<forall>name. fnmatch_ascii name ''*''" by (simp add: fnmatch_ascii_star)
  have m1: "fnmatch_ascii ''package.lock'' ''*.lock''" by code_simp
  have m2: "\<not> fnmatch_ascii ''package.json'' ''*.lock''" by code_simp
  have m3: "fnmatch_ascii ''package.json'' ''*''" by code_simp
  have e1: "clean_patterns strip_ascii (split_on (CHR '','') (getenv_default (Some '' , '') [])) = []"
    by code_simp
  have e2: "clean_patterns strip_ascii
      (split_on (CHR '','') (getenv_default (Some ''*.lock, docs/*'') [])) =
      [''*.lock'', ''docs/*'']"
    by code_simp
  have e3: "clean_patterns strip_ascii (split_on (CHR '','') (getenv_default None [])) = []"
    by code_simp
  have m4: "\<not> fnmatch_ascii ''src/a.php'' ''*.lock''" "\<not> fnmatch_ascii ''src/a.php'' ''docs/*''"
    by code_simp+
  have w1: "\<not> should_review_file fnmatch_ascii ?c ''package.lock''"
    using should_review_file_spec [of ?c fnmatch_ascii "''package.lock''"] c m1 by simp
  have w2: "should_review_file fnmatch_ascii ?c ''package.json''"
    using should_review_file_spec [of ?c fnmatch_ascii "''package.json''"] c m2 m3 by simp
  note t = should_review_file_spec [where cfg = ?d and fnm = fnmatch_ascii
      and F = "''src/a.php''" and strip = strip_ascii and w = "Some '' , ''"
      and b = "Some ''*.lock, docs/*''"]
  have w3: "whitelist_patterns ?d = [''*'']" using t e1 by simp
  have w4: "blacklist_patterns ?d = [''*.lock'', ''docs/*'']" using t e2 by simp
  from t e1 star have "should_review_file fnmatch_ascii ?d ''src/a.php'' =
      (\<not> (\<exists>p\<in>set (blacklist_patterns ?d). fnmatch_ascii ''src/a.php'' p))"
    by blast
  then have w5: "should_review_file fnmatch_ascii ?d ''src/a.php''" using m4 by (simp add: w4)
  have e4: "blacklist_patterns ?e = []"
    by code_simp
  from should_review_file_spec [where cfg = ?e and fnm = fnmatch_ascii
      and F = "''README.md''" and strip = strip_ascii and w = None and b = None] e3 star
  have "should_review_file fnmatch_ascii ?e ''README.md'' =
      (\<not> (\<exists>p\<in>set (blacklist_patterns ?e). fnmatch_ascii ''README.md'' p))"
    by blast
  then have w6: "should_review_file fnmatch_ascii ?e ''README.md''"
    by (simp add: e4)
  from w1 w2 w3 w4 w5 w6 show ?thesis by simp
qed

section \<open>Properties of the review orchestrator\<close>

subsection \<open>The reviewer's answer\<close>

lemma review_code_total: "\<exists>xs. review_code w code fp = Inr xs"
  by (simp add: review_code_def split: sum.splits)

lemma review_code_not_json:
  "w_claude w code fp = Inr t \<Longrightarrow> w_loads w t = Inl e \<Longrightarrow> review_code w code fp = Inr []"
  by (simp add: review_code_def parse_review_def)

lemma review_code_not_array:
  "w_claude w code fp = Inr t \<Longrightarrow> w_loads w t = Inr v \<Longrightarrow> \<forall>xs. v \<noteq> JArray xs \<Longrightarrow>
     review_code w code fp = Inr []"
  by (cases v) (simp_all add: review_code_def parse_review_def)

lemma review_code_array:
  "w_claude w code fp = Inr t \<Longrightarrow> w_loads w t = Inr (JArray xs) \<Longrightarrow>
     review_code w code fp = Inr xs"
  by (simp add: review_code_def parse_review_def)

lemma review_file_no_findings:
  "status file \<noteq> ''removed'' \<Longrightarrow> should_review_file (w_fnmatch w) cfg (filename file) \<Longrightarrow>
   w_get_contents w (filename file) = Inr content \<Longrightarrow>
   review_code w content (filename file) = Inr [] \<Longrightarrow>
     review_file w cfg ex file st = Inr (st\<lparr>reviewed_files := reviewed_files st @ [filename file]\<rparr>)"
  by (simp add: review_file_def Let_def)

text \<open>
  C6. \<open>review_code\<close> never raises: it always returns a list. When the reviewer's text
  is not JSON (\<open>json.loads\<close> raises), when it is JSON but not an array, and when it is
  the empty array, the list is empty. The run goes on: the file is recorded as reviewed
  and the loop over the files continues with the state otherwise unchanged.
\<close>

theorem reviewer_response_errors:
  "(\<exists>xs. review_code w code fp = Inr xs) \<and>
   (w_claude w code fp = Inr t \<and> w_loads w t = Inl e \<longrightarrow> review_code w code fp = Inr []) \<and>
   (w_claude w code fp = Inr t \<and> w_loads w t = Inr v \<and> (\<forall>xs. v \<noteq> JArray xs) \<longrightarrow>
      review_code w code fp = Inr []) \<and>
   (w_claude w code fp = Inr t \<and> w_loads w t = Inr (JArray []) \<longrightarrow>
      review_code w code fp = Inr []) \<and>
   (status file \<noteq> ''removed'' \<and> should_review_file (w_fnmatch w) cfg (filename file) \<and>
    w_get_contents w (filename file) = Inr content \<and>
    w_claude w content (filename file) = Inr t \<and>
    (w_loads w t = Inl e \<or> (w_loads w t = Inr v \<and> (\<forall>xs. v \<noteq> JArray xs)) \<or>
     w_loads w t = Inr (JArray [])) \<longrightarrow>
      review_file w cfg ex file st =
        Inr (st\<lparr>reviewed_files := reviewed_files st @ [filename file]\<rparr>))"
proof (intro conjI impI)
  show "\<exists>xs. review_code w code fp = Inr xs" by (rule review_code_total)
next
  assume "w_claude w code fp = Inr t \<and> w_loads w t = Inl e"
  then show "review_code w code fp = Inr []" by (simp add: review_code_not_json)
next
  assume "w_claude w code fp = Inr t \<and> w_loads w t = Inr v \<and> (\<forall>xs. v \<noteq> JArray xs)"
  then show "review_code w code fp = Inr []" using review_code_not_array by blast
next
  assume "w_claude w code fp = Inr t \<and> w_loads w t = Inr (JArray [])"
  then show "review_code w code fp = Inr []" by (simp add: review_code_array)
next
  assume a: "status file \<noteq> ''removed'' \<and> should_review_file (w_fnmatch w) cfg (filename file) \<and>
    w_get_contents w (filename file) = Inr content \<and>
    w_claude w content (filename file) = Inr t \<and>
    (w_loads w t = Inl e \<or> (w_loads w t = Inr v \<and> (\<forall>xs. v \<noteq> JArray xs)) \<or>
     w_loads w t = Inr (JArray []))"
  then have "review_code w content (filename file) = Inr []"
    using review_code_not_json review_code_not_array review_code_array by blast
  with a show "review_file w cfg ex file st =
        Inr (st\<lparr>reviewed_files := reviewed_files st @ [filename file]\<rparr>)"
    by (simp add: review_file_no_findings)
qed

theorem reviewer_response_errors_witness:
  "review_code example_world ''<?php'' ''notes.php'' = Inr [] \<and>
   review_code example_world ''<?php'' ''object.php'' = Inr [] \<and>
   review_code example_world ''<?php'' ''clean.php'' = Inr [] \<and>
   review_file example_world example_filter [] (modified_file ''notes.php'') run_init =
     Inr (run_init\<lparr>reviewed_files := [''notes.php'']\<rparr>)"
proof -
  have c1: "w_claude example_world ''<?php'' ''notes.php'' = Inr ''Sure, here is my review''"
    by (simp add: example_world_def)
  have l1: "w_loads example_world ''Sure, here is my review'' = Inl JSONDecodeError"
    by (simp add: example_world_def)
  have c2: "w_claude example_world ''<?php'' ''object.php'' = Inr ''{}''"
    by (simp add: example_world_def)
  have l2: "w_loads example_world ''{}'' = Inr JObject"
    by (simp add: example_world_def)
  have c3: "w_claude example_world ''<?php'' ''clean.php'' = Inr ''[]''"
    by (simp add: example_world_def)
  have l3: "w_loads example_world ''[]'' = Inr (JArray [])"
    by (simp add: example_world_def)
  have f1: "status (modified_file ''notes.php'') \<noteq> ''removed''"
    by (simp add: modified_file_def)
  have f2: "filename (modified_file ''notes.php'') = ''notes.php''"
    by (simp add: modified_file_def)
  have f3: "should_review_file (w_fnmatch example_world) example_filter ''notes.php''"
    by code_simp
  have f4: "w_get_contents example_world ''notes.php'' = Inr ''<?php''"
    by (simp add: example_world_def)
  have r0: "reviewed_files run_init = []" by (simp add: run_init_def)
  have a: "review_code example_world ''<?php'' ''notes.php'' = Inr []"
    using reviewer_response_errors [of example_world "''<?php''" "''notes.php''"
        "''Sure, here is my review''" JSONDecodeError] c1 l1 by simp
  have b: "review_code example_world ''<?php'' ''object.php'' = Inr []"
    using reviewer_response_errors [of example_world "''<?php''" "''object.php''"
        "''{}''" _ JObject] c2 l2 by simp
  have c: "review_code example_world ''<?php'' ''clean.php'' = Inr []"
    using reviewer_response_errors [of example_world "''<?php''" "''clean.php''" "''[]''"] c3 l3
    by simp
  have d: "review_file example_world example_filter [] (modified_file ''notes.php'') run_init =
     Inr (run_init\<lparr>reviewed_files := [''notes.php'']\<rparr>)"
    using reviewer_response_errors [of example_world "''<?php''" "''notes.php''"
        "''Sure, here is my review''" JSONDecodeError _ "modified_file ''notes.php''"
        example_filter "''<?php''" "[]" run_init] c1 l1 f1 f2 f3 f4 r0 by simp
  from a b c d show ?thesis by simp
qed

subsection \<open>Unresolved findings\<close>

lemma startswith_append: "startswith (p @ r) p"
  by (simp add: startswith_def)

lemma general_body_header:
  "startswith (general_body name n msg s) (''**In file '' @ name @ '', line '' @ str_int n @ '':**'')"
proof -
  have e: "general_body name n msg s =
      (''**In file '' @ name @ '', line '' @ str_int n @ '':**'') @
      ([NL, NL] @ msg @ [NL, NL] @ fence @ ''suggestion'' @ [NL] @ suggestion_text s @ [NL] @ fence)"
    by (simp add: general_body_def)
  show ?thesis unfolding e by (rule startswith_append)
qed

lemma place_comment_unresolved:
  assumes "has_patch file"
    and "\<forall>k\<in>fst ` set (calculate_line_positions (the (patch file))). 3 < \<bar>k - n\<bar>"
  shows "place_comment ex file (Finding n msg s) st =
    Inr (st\<lparr>general_comments := general_comments st @ [general_body (filename file) n msg s]\<rparr>)"
proof -
  let ?M = "calculate_line_positions (the (patch file))"
  have "n \<notin> fst ` set ?M" using assms(2) by fastforce
  then have "find_closest_line n ?M 3 = None"
    using assms(2) by (simp add: find_closest_line_None_iff)
  then show ?thesis using assms(1) by (simp add: place_comment_def Let_def)
qed

lemma submit_general:
  "general_comments st \<noteq> [] \<Longrightarrow>
     \<exists>r pre. submit st = [r] \<and> rv_comments r = draft_review_comments st \<and>
       rv_body r = pre @ join [NL, NL] (general_comments st)"
  by (simp add: submit_def review_body_def)

text \<open>
  C8. A finding on a file with a patch whose line is farther than 3 from every key of the
  file's position map is never made an inline comment: the drafts stay as they are and
  its text, under the header \<open>**In file X, line N:**\<close>, is appended to the general
  comments, whatever the index of existing comments holds. The review then submitted
  carries the general comments at the end of its body.
\<close>

theorem unresolved_finding_general:
  "has_patch file \<and> (\<forall>k\<in>fst ` set (calculate_line_positions (the (patch file))). 3 < \<bar>k - n\<bar>) \<longrightarrow>
     place_comment ex file (Finding n msg s) st =
       Inr (st\<lparr>general_comments :=
                general_comments st @ [general_body (filename file) n msg s]\<rparr>) \<and>
     startswith (general_body (filename file) n msg s)
       (''**In file '' @ filename file @ '', line '' @ str_int n @ '':**'') \<and>
     (\<exists>r pre. submit (st\<lparr>general_comments :=
                         general_comments st @ [general_body (filename file) n msg s]\<rparr>) = [r] \<and>
        rv_comments r = draft_review_comments st \<and>
        rv_body r =
          pre @ join [NL, NL] (general_comments st @ [general_body (filename file) n msg s]))"
proof (intro impI conjI)
  assume a: "has_patch file \<and>
    (\<forall>k\<in>fst ` set (calculate_line_positions (the (patch file))). 3 < \<bar>k - n\<bar>)"
  then show "place_comment ex file (Finding n msg s) st =
       Inr (st\<lparr>general_comments :=
                general_comments st @ [general_body (filename file) n msg s]\<rparr>)"
    by (simp add: place_comment_unresolved)
  show "startswith (general_body (filename file) n msg s)
       (''**In file '' @ filename file @ '', line '' @ str_int n @ '':**'')"
    by (rule general_body_header)
  let ?st = "st\<lparr>general_comments :=
                general_comments st @ [general_body (filename file) n msg s]\<rparr>"
  have "general_comments ?st \<noteq> []" by simp
  from submit_general [OF this]
  show "\<exists>r pre. submit ?st = [r] \<and> rv_comments r = draft_review_comments st \<and>
        rv_body r =
          pre @ join [NL, NL] (general_comments st @ [general_body (filename file) n msg s])"
    by simp
qed

theorem unresolved_finding_general_witness:
  "place_comment [(''a.php:3'', ''seen'')] (modified_file ''a.php'') (Finding 50 ''far'' None)
       run_init =
     Inr (run_init\<lparr>general_comments := [general_body ''a.php'' 50 ''far'' None]\<rparr>) \<and>
   startswith (general_body ''a.php'' 50 ''far'' None) ''**In file a.php, line 50:**''"
proof -
  have p: "has_patch (modified_file ''a.php'')"
    by (simp add: has_patch_def modified_file_def example_patch_def)
  have m: "calculate_line_positions (the (patch (modified_file ''a.php''))) =
      [(1, 2), (2, 3), (3, 4), (4, 5)]"
    by code_simp
  have h: "\<forall>k\<in>fst ` set (calculate_line_positions (the (patch (modified_file ''a.php'')))).
      3 < \<bar>k - 50\<bar>"
    unfolding m by simp
  have f: "filename (modified_file ''a.php'') = ''a.php''" by (simp add: modified_file_def)
  have g: "general_comments run_init = []" by (simp add: run_init_def)
  have s: "str_int 50 = ''50''" by code_simp
  note t = unresolved_finding_general [of "modified_file ''a.php''" 50 "[(''a.php:3'', ''seen'')]"
      "''far''" None run_init]
  from t p h have
    a: "place_comment [(''a.php:3'', ''seen'')] (modified_file ''a.php'') (Finding 50 ''far'' None)
          run_init =
        Inr (run_init\<lparr>general_comments := general_comments run_init @
          [general_body (filename (modified_file ''a.php'')) 50 ''far'' None]\<rparr>)"
    and b: "startswith (general_body (filename (modified_file ''a.php'')) 50 ''far'' None)
       (''**In file '' @ filename (modified_file ''a.php'') @ '', line '' @ str_int 50 @ '':**'')"
    by blast+
  from a b show ?thesis by (simp add: f g s)
qed


subsection \<open>Submission\<close>

lemma submit_length: "length (submit st) \<le> 1"
  by (simp add: submit_def)

lemma submit_event: "r \<in> set (submit st) \<Longrightarrow> rv_event r = ''COMMENT''"
  by (auto simp add: submit_def split: if_splits)

text \<open>
  C9. When the loop over the files ends in a state, \<open>run_review\<close> calls
  \<open>create_review\<close> once, with all the drafts, the summary and the event
  \<open>COMMENT\<close>, if there is a draft, a general comment or a skipped file, and not at all
  otherwise. When the loop raises, the run ends with that exception before any call. A
  run never makes more than one call, and never with another event.
\<close>

theorem single_comment_review:
  "(review_files w cfg (get_existing_comments comments []) files run_init = Inr st \<longrightarrow>
      run_review w cfg files comments =
        Inr (if draft_review_comments st \<noteq> [] \<or> general_comments st \<noteq> [] \<or> skipped_files st \<noteq> []
             then [\<lparr>rv_comments = draft_review_comments st, rv_body = review_body st,
                    rv_event = ''COMMENT''\<rparr>]
             else [])) \<and>
   (review_files w cfg (get_existing_comments comments []) files run_init = Inl e \<longrightarrow>
      run_review w cfg files comments = Inl e) \<and>
   (run_review w cfg files comments = Inr calls \<longrightarrow>
      length calls \<le> 1 \<and> (\<forall>r\<in>set calls. rv_event r = ''COMMENT''))"
proof (intro conjI impI)
  assume "review_files w cfg (get_existing_comments comments []) files run_init = Inr st"
  then show "run_review w cfg files comments =
        Inr (if draft_review_comments st \<noteq> [] \<or> general_comments st \<noteq> [] \<or> skipped_files st \<noteq> []
             then [\<lparr>rv_comments = draft_review_comments st, rv_body = review_body st,
                    rv_event = ''COMMENT''\<rparr>]
             else [])"
    by (simp add: run_review_def submit_def)
next
  assume "review_files w cfg (get_existing_comments comments []) files run_init = Inl e"
  then show "run_review w cfg files comments = Inl e" by (simp add: run_review_def)
next
  assume a: "run_review w cfg files comments = Inr calls"
  then obtain st' where "calls = submit st'"
    by (auto simp add: run_review_def Let_def split: sum.splits)
  then show "length calls \<le> 1" using submit_length [of st'] by simp
next
  assume a: "run_review w cfg files comments = Inr calls"
  then obtain st' where "calls = submit st'"
    by (auto simp add: run_review_def Let_def split: sum.splits)
  then show "\<forall>r\<in>set calls. rv_event r = ''COMMENT''" by (simp add: submit_event)
qed

theorem single_comment_review_witness:
  "run_review example_world example_filter [modified_file ''x.lock''] [] =
     Inr [\<lparr>rv_comments = [],
           rv_body = review_body
             \<lparr>draft_review_comments = [], general_comments = [], skipped_files = [''x.lock''],
              reviewed_files = []\<rparr>,
           rv_event = ''COMMENT''\<rparr>] \<and>
   run_review example_world example_filter [modified_file ''clean.php''] [] = Inr [] \<and>
   run_review example_world example_filter [modified_file ''broken.php''] [] = Inl TypeError"
proof -
  let ?st1 = "\<lparr>draft_review_comments = [], general_comments = [], skipped_files = [''x.lock''],
              reviewed_files = []\<rparr>"
  let ?st2 = "\<lparr>draft_review_comments = [], general_comments = [], skipped_files = [],
              reviewed_files = [''clean.php'']\<rparr>"
  have l1: "review_files example_world example_filter (get_existing_comments [] [])
      [modified_file ''x.lock''] run_init = Inr ?st1"
    by code_simp
  have l2: "review_files example_world example_filter (get_existing_comments [] [])
      [modified_file ''clean.php''] run_init = Inr ?st2"
    by code_simp
  have l3: "review_files example_world example_filter (get_existing_comments [] [])
      [modified_file ''broken.php''] run_init = Inl TypeError"
    by code_simp
  have a: "run_review example_world example_filter [modified_file ''x.lock''] [] =
     Inr [\<lparr>rv_comments = [], rv_body = review_body ?st1, rv_event = ''COMMENT''\<rparr>]"
    using single_comment_review [of example_world example_filter "[]" "[modified_file ''x.lock'']"
        ?st1] l1 by simp
  have b: "run_review example_world example_filter [modified_file ''clean.php''] [] = Inr []"
    using single_comment_review [of example_world example_filter "[]"
        "[modified_file ''clean.php'']" ?st2] l2 by simp
  have c: "run_review example_world example_filter [modified_file ''broken.php''] [] =
      Inl TypeError"
    using single_comment_review [of example_world example_filter "[]"
        "[modified_file ''broken.php'']" _ TypeError] l3 by simp
  from a b c show ?thesis by simp
qed


subsection \<open>Reviewed and skipped files\<close>










subsection \<open>Deduplication\<close>

lemma existing_key_posted: "existing_key (posted d) = draft_key d"
  by (simp add: existing_key_def posted_def draft_key_def str_position_def)

lemma get_existing_comments_keys:
  "fst ` set (get_existing_comments cs ex) = fst ` set ex \<union> existing_key ` set cs"
  by (induction cs arbitrary: ex) (auto simp add: dom_update existing_key_def)

lemma place_comment_drafts:
  "place_comment ex file c st = Inr st' \<Longrightarrow>
     \<exists>new. draft_review_comments st' = draft_review_comments st @ new \<and>
       (\<forall>d\<in>set new. draft_key d \<notin> fst ` set ex)"
  by (auto simp add: place_comment_def Let_def draft_key_def
      split: finding.splits option.splits if_splits)

lemma place_comments_drafts:
  "place_comments ex file cs st = Inr st' \<Longrightarrow>
     \<exists>new. draft_review_comments st' = draft_review_comments st @ new \<and>
       (\<forall>d\<in>set new. draft_key d \<notin> fst ` set ex)"
proof (induction cs arbitrary: st)
  case Nil
  then show ?case by simp
next
  case (Cons c cs)
  from Cons.prems obtain st1 where s: "place_comment ex file c st = Inr st1"
    and r: "place_comments ex file cs st1 = Inr st'"
    by (auto split: sum.splits)
  from place_comment_drafts [OF s] obtain n1 where
    n1: "draft_review_comments st1 = draft_review_comments st @ n1"
      "\<forall>d\<in>set n1. draft_key d \<notin> fst ` set ex" by blast
  from Cons.IH [OF r] obtain n2 where
    n2: "draft_review_comments st' = draft_review_comments st1 @ n2"
      "\<forall>d\<in>set n2. draft_key d \<notin> fst ` set ex" by blast
  from n1 n2 have "draft_review_comments st' = draft_review_comments st @ (n1 @ n2) \<and>
      (\<forall>d\<in>set (n1 @ n2). draft_key d \<notin> fst ` set ex)" by auto
  then show ?case by blast
qed

lemma review_file_drafts:
  assumes "review_file w cfg ex f st = Inr st'"
  shows "\<exists>new. draft_review_comments st' = draft_review_comments st @ new \<and>
       (\<forall>d\<in>set new. draft_key d \<notin> fst ` set ex)"
proof -
  let ?st1 = "st\<lparr>reviewed_files := reviewed_files st @ [filename f]\<rparr>"
  from assms have "draft_review_comments st' = draft_review_comments st \<or>
      (\<exists>cs. place_comments ex f cs ?st1 = Inr st')"
    by (auto simp add: review_file_def Let_def split: sum.splits if_splits)
  then show ?thesis
  proof
    assume "draft_review_comments st' = draft_review_comments st"
    then have "draft_review_comments st' = draft_review_comments st @ [] \<and>
      (\<forall>d\<in>set []. draft_key d \<notin> fst ` set ex)" by simp
    then show ?thesis by blast
  next
    assume "\<exists>cs. place_comments ex f cs ?st1 = Inr st'"
    then obtain cs where "place_comments ex f cs ?st1 = Inr st'" by blast
    from place_comments_drafts [OF this] show ?thesis by simp
  qed
qed

lemma review_files_drafts:
  "review_files w cfg ex files st = Inr st' \<Longrightarrow>
     \<exists>new. draft_review_comments st' = draft_review_comments st @ new \<and>
       (\<forall>d\<in>set new. draft_key d \<notin> fst ` set ex)"
proof (induction files arbitrary: st)
  case Nil
  then show ?case by simp
next
  case (Cons f files)
  from Cons.prems obtain st1 where s: "review_file w cfg ex f st = Inr st1"
    and r: "review_files w cfg ex files st1 = Inr st'"
    by (auto split: sum.splits)
  from review_file_drafts [OF s] obtain n1 where
    n1: "draft_review_comments st1 = draft_review_comments st @ n1"
      "\<forall>d\<in>set n1. draft_key d \<notin> fst ` set ex" by blast
  from Cons.IH [OF r] obtain n2 where
    n2: "draft_review_comments st' = draft_review_comments st1 @ n2"
      "\<forall>d\<in>set n2. draft_key d \<notin> fst ` set ex" by blast
  from n1 n2 have "draft_review_comments st' = draft_review_comments st @ (n1 @ n2) \<and>
      (\<forall>d\<in>set (n1 @ n2). draft_key d \<notin> fst ` set ex)" by auto
  then show ?case by blast
qed

text \<open>
  A second run, whose index holds the keys of the first run's index and of all its
  drafts, goes through the same states with the drafts left out.
\<close>

lemma rerun_place_comment:
  assumes "place_comment ex1 file c st = Inr st'"
    and "\<forall>d\<in>set (draft_review_comments st'). draft_key d \<in> fst ` set ex2"
    and "fst ` set ex1 \<subseteq> fst ` set ex2"
  shows "place_comment ex2 file c (st\<lparr>draft_review_comments := []\<rparr>) =
     Inr (st'\<lparr>draft_review_comments := []\<rparr>)"
proof (cases c)
  case (Finding n msg s)
  show ?thesis
  proof (cases "has_patch file")
    case False
    then show ?thesis using assms(1) Finding by (simp add: place_comment_def)
  next
    case True
    let ?M = "calculate_line_positions (the (patch file))"
    show ?thesis
    proof (cases "find_closest_line n ?M 3")
      case None
      then show ?thesis using assms(1) Finding True
        by (auto simp add: place_comment_def Let_def)
    next
      case (Some l)
      show ?thesis
      proof (cases "map_of ?M l")
        case None
        then show ?thesis using assms(1) Finding True Some
          by (simp add: place_comment_def Let_def)
      next
        case (Some pos)
        let ?k = "comment_key (filename file) (str_int pos)"
        let ?d = "\<lparr>dc_path = filename file, dc_position = pos, dc_body = inline_body msg s\<rparr>"
        have k: "draft_key ?d = ?k" by (simp add: draft_key_def)
        have st': "st' = (if ?k \<notin> fst ` set ex1
            then st\<lparr>draft_review_comments := draft_review_comments st @ [?d]\<rparr> else st)"
          using assms(1) Finding True \<open>find_closest_line n ?M 3 = Some l\<close> Some
          by (simp add: place_comment_def Let_def split: if_splits)
        have "?k \<in> fst ` set ex2"
        proof (cases "?k \<in> fst ` set ex1")
          case True
          then show ?thesis using assms(3) by blast
        next
          case False
          then have "?d \<in> set (draft_review_comments st')" using st' by simp
          then have "draft_key ?d \<in> fst ` set ex2" using assms(2) by blast
          then show ?thesis using k by simp
        qed
        moreover have "st'\<lparr>draft_review_comments := []\<rparr> = st\<lparr>draft_review_comments := []\<rparr>"
          using st' by simp
        ultimately show ?thesis
          using Finding True \<open>find_closest_line n ?M 3 = Some l\<close> Some
          by (simp add: place_comment_def Let_def)
      qed
    qed
  qed
next
  case (NoComment n)
  then show ?thesis using assms(1) by (auto simp add: place_comment_def split: if_splits)
next
  case NoLine
  then show ?thesis using assms(1) by (simp add: place_comment_def)
next
  case NotAnObject
  then show ?thesis using assms(1) by (simp add: place_comment_def)
qed

lemma rerun_place_comments:
  assumes "place_comments ex1 file cs st = Inr st'"
    and "\<forall>d\<in>set (draft_review_comments st'). draft_key d \<in> fst ` set ex2"
    and "fst ` set ex1 \<subseteq> fst ` set ex2"
  shows "place_comments ex2 file cs (st\<lparr>draft_review_comments := []\<rparr>) =
     Inr (st'\<lparr>draft_review_comments := []\<rparr>)"
  using assms
proof (induction cs arbitrary: st)
  case Nil
  then show ?case by simp
next
  case (Cons c cs)
  from Cons.prems(1) obtain st1 where s: "place_comment ex1 file c st = Inr st1"
    and r: "place_comments ex1 file cs st1 = Inr st'"
    by (auto split: sum.splits)
  from place_comments_drafts [OF r]
  have "set (draft_review_comments st1) \<subseteq> set (draft_review_comments st')" by auto
  then have k: "\<forall>d\<in>set (draft_review_comments st1). draft_key d \<in> fst ` set ex2"
    using Cons.prems(2) by blast
  from rerun_place_comment [OF s k Cons.prems(3)] Cons.IH [OF r Cons.prems(2) Cons.prems(3)]
  show ?case by simp
qed

lemma rerun_review_file:
  assumes "review_file w cfg ex1 f st = Inr st'"
    and "\<forall>d\<in>set (draft_review_comments st'). draft_key d \<in> fst ` set ex2"
    and "fst ` set ex1 \<subseteq> fst ` set ex2"
  shows "review_file w cfg ex2 f (st\<lparr>draft_review_comments := []\<rparr>) =
     Inr (st'\<lparr>draft_review_comments := []\<rparr>)"
proof -
  let ?st1 = "st\<lparr>reviewed_files := reviewed_files st @ [filename f]\<rparr>"
  have e: "?st1\<lparr>draft_review_comments := []\<rparr> =
      (st\<lparr>draft_review_comments := []\<rparr>)\<lparr>reviewed_files :=
         reviewed_files (st\<lparr>draft_review_comments := []\<rparr>) @ [filename f]\<rparr>"
    by simp
  show ?thesis
  proof (cases "status f \<noteq> ''removed'' \<and> should_review_file (w_fnmatch w) cfg (filename f) \<and>
      has_patch f \<and> (\<exists>content. w_get_contents w (filename f) = Inr content)")
    case False
    then show ?thesis using assms(1)
      by (auto simp add: review_file_def Let_def split: sum.splits if_splits)
  next
    case True
    then obtain content where c: "w_get_contents w (filename f) = Inr content" by blast
    obtain cs where cs: "review_code w content (filename f) = Inr cs"
      using review_code_total by blast
    from True c cs assms(1) have p: "place_comments ex1 f cs ?st1 = Inr st'"
      by (simp add: review_file_def Let_def)
    from rerun_place_comments [OF p assms(2) assms(3)]
    have "place_comments ex2 f cs (?st1\<lparr>draft_review_comments := []\<rparr>) =
        Inr (st'\<lparr>draft_review_comments := []\<rparr>)" .
    then have q: "place_comments ex2 f cs
        ((st\<lparr>draft_review_comments := []\<rparr>)\<lparr>reviewed_files :=
           reviewed_files (st\<lparr>draft_review_comments := []\<rparr>) @ [filename f]\<rparr>) =
        Inr (st'\<lparr>draft_review_comments := []\<rparr>)"
      by (simp only: e)
    have "review_file w cfg ex2 f (st\<lparr>draft_review_comments := []\<rparr>) =
        place_comments ex2 f cs
          ((st\<lparr>draft_review_comments := []\<rparr>)\<lparr>reviewed_files :=
             reviewed_files (st\<lparr>draft_review_comments := []\<rparr>) @ [filename f]\<rparr>)"
      unfolding review_file_def Let_def using True c cs by simp
    then show ?thesis using q by (rule trans)
  qed
qed

lemma rerun_review_files:
  assumes "review_files w cfg ex1 files st = Inr st'"
    and "\<forall>d\<in>set (draft_review_comments st'). draft_key d \<in> fst ` set ex2"
    and "fst ` set ex1 \<subseteq> fst ` set ex2"
  shows "review_files w cfg ex2 files (st\<lparr>draft_review_comments := []\<rparr>) =
     Inr (st'\<lparr>draft_review_comments := []\<rparr>)"
  using assms
proof (induction files arbitrary: st)
  case Nil
  then show ?case by simp
next
  case (Cons f files)
  from Cons.prems(1) obtain st1 where s: "review_file w cfg ex1 f st = Inr st1"
    and r: "review_files w cfg ex1 files st1 = Inr st'"
    by (auto split: sum.splits)
  from review_files_drafts [OF r]
  have "set (draft_review_comments st1) \<subseteq> set (draft_review_comments st')" by auto
  then have k: "\<forall>d\<in>set (draft_review_comments st1). draft_key d \<in> fst ` set ex2"
    using Cons.prems(2) by blast
  from rerun_review_file [OF s k Cons.prems(3)] Cons.IH [OF r Cons.prems(2) Cons.prems(3)]
  show ?case by simp
qed

lemma submit_drafts: "concat (map rv_comments (submit st)) = draft_review_comments st"
  by (simp add: submit_def)

lemma submit_no_drafts:
  "r \<in> set (submit (st\<lparr>draft_review_comments := []\<rparr>)) \<Longrightarrow> rv_comments r = []"
  by (auto simp add: submit_def split: if_splits)

text \<open>
  C7. The key \<open>get_existing_comments\<close> computes for a posted comment is the key
  \<open>run_review\<close> computes for a draft of the same path and position. No draft of a run
  has a key of the index of existing comments. And when a run ends normally and its
  drafts are then among the comments of the platform, a second run on the same files,
  with the same collaborators, ends normally too and has no draft at all.
\<close>

theorem rerun_posts_no_duplicate:
  "existing_key (posted d) = comment_key (dc_path d) (str_int (dc_position d)) \<and>
   (run_review w cfg files comments = Inr calls \<longrightarrow>
      (\<forall>r\<in>set calls. \<forall>d\<in>set (rv_comments r).
         comment_key (dc_path d) (str_int (dc_position d))
           \<notin> fst ` set (get_existing_comments comments [])) \<and>
      (\<exists>calls2.
         run_review w cfg files (comments @ map posted (concat (map rv_comments calls))) =
           Inr calls2 \<and>
         (\<forall>r\<in>set calls2. rv_comments r = [])))"
proof (intro conjI impI)
  show "existing_key (posted d) = comment_key (dc_path d) (str_int (dc_position d))"
    by (simp add: existing_key_posted draft_key_def)
next
  assume a: "run_review w cfg files comments = Inr calls"
  let ?ex1 = "get_existing_comments comments []"
  from a obtain st where st: "review_files w cfg ?ex1 files run_init = Inr st"
    and calls: "calls = submit st"
    by (auto simp add: run_review_def Let_def split: sum.splits)
  from review_files_drafts [OF st]
  have new: "\<forall>d\<in>set (draft_review_comments st). draft_key d \<notin> fst ` set ?ex1"
    by (auto simp add: run_init_def)
  show "\<forall>r\<in>set calls. \<forall>d\<in>set (rv_comments r).
         comment_key (dc_path d) (str_int (dc_position d)) \<notin> fst ` set ?ex1"
    using new calls by (auto simp add: submit_def draft_key_def split: if_splits)
  let ?comments2 = "comments @ map posted (concat (map rv_comments calls))"
  let ?ex2 = "get_existing_comments ?comments2 []"
  have k2: "fst ` set ?ex2 = fst ` set ?ex1 \<union> draft_key ` set (draft_review_comments st)"
    by (simp add: get_existing_comments_keys calls submit_drafts image_Un image_image
        existing_key_posted)
  have sub: "fst ` set ?ex1 \<subseteq> fst ` set ?ex2" using k2 by blast
  have all: "\<forall>d\<in>set (draft_review_comments st). draft_key d \<in> fst ` set ?ex2"
    using k2 by blast
  have i: "run_init\<lparr>draft_review_comments := []\<rparr> = run_init" by (simp add: run_init_def)
  from rerun_review_files [OF st all sub]
  have "review_files w cfg ?ex2 files run_init = Inr (st\<lparr>draft_review_comments := []\<rparr>)"
    by (simp only: i)
  then have "run_review w cfg files ?comments2 = Inr (submit (st\<lparr>draft_review_comments := []\<rparr>))"
    by (simp add: run_review_def)
  then show "\<exists>calls2. run_review w cfg files ?comments2 = Inr calls2 \<and>
         (\<forall>r\<in>set calls2. rv_comments r = [])"
    using submit_no_drafts by blast
qed

theorem rerun_posts_no_duplicate_witness:
  "run_review example_world example_filter [modified_file ''a.php''] [] =
     Inr [\<lparr>rv_comments =
            [\<lparr>dc_path = ''a.php'', dc_position = 3, dc_body = inline_body ''bad'' (Some ''good'')\<rparr>],
           rv_body = review_body
             \<lparr>draft_review_comments =
                [\<lparr>dc_path = ''a.php'', dc_position = 3,
                  dc_body = inline_body ''bad'' (Some ''good'')\<rparr>],
              general_comments = [general_body ''a.php'' 50 ''far'' None],
              skipped_files = [], reviewed_files = [''a.php'']\<rparr>,
           rv_event = ''COMMENT''\<rparr>] \<and>
   ''a.php:3'' \<notin> fst ` set (get_existing_comments [] []) \<and>
   (\<exists>calls2.
      run_review example_world example_filter [modified_file ''a.php'']
        [\<lparr>ec_path = ''a.php'', ec_position = Some 3,
          ec_body = inline_body ''bad'' (Some ''good'')\<rparr>] = Inr calls2 \<and>
      (\<forall>r\<in>set calls2. rv_comments r = []))"
proof -
  let ?d = "\<lparr>dc_path = ''a.php'', dc_position = 3, dc_body = inline_body ''bad'' (Some ''good'')\<rparr>"
  let ?st = "\<lparr>draft_review_comments = [?d],
              general_comments = [general_body ''a.php'' 50 ''far'' None],
              skipped_files = [], reviewed_files = [''a.php'']\<rparr>"
  let ?calls = "[\<lparr>rv_comments = [?d], rv_body = review_body ?st, rv_event = ''COMMENT''\<rparr>]"
  have r1: "run_review example_world example_filter [modified_file ''a.php''] [] = Inr ?calls"
    by code_simp
  have k: "comment_key (dc_path ?d) (str_int (dc_position ?d)) = ''a.php:3''"
    by code_simp
  have p: "[] @ map posted (concat (map rv_comments ?calls)) =
      [\<lparr>ec_path = ''a.php'', ec_position = Some 3, ec_body = inline_body ''bad'' (Some ''good'')\<rparr>]"
    by (simp add: posted_def)
  note t = rerun_posts_no_duplicate [of ?d example_world example_filter "[modified_file ''a.php'']"
      "[]" ?calls]
  from t r1 have a: "\<forall>r\<in>set ?calls. \<forall>d\<in>set (rv_comments r).
         comment_key (dc_path d) (str_int (dc_position d))
           \<notin> fst ` set (get_existing_comments [] [])"
    and b: "\<exists>calls2.
         run_review example_world example_filter [modified_file ''a.php'']
           ([] @ map posted (concat (map rv_comments ?calls))) = Inr calls2 \<and>
         (\<forall>r\<in>set calls2. rv_comments r = [])"
    by blast+
  from a have a': "''a.php:3'' \<notin> fst ` set (get_existing_comments [] [])"
    using k by simp
  from b have b': "\<exists>calls2.
      run_review example_world example_filter [modified_file ''a.php'']
        [\<lparr>ec_path = ''a.php'', ec_position = Some 3,
          ec_body = inline_body ''bad'' (Some ''good'')\<rparr>] = Inr calls2 \<and>
      (\<forall>r\<in>set calls2. rv_comments r = [])"
    by (simp only: p)
  from r1 a' b' show ?thesis by blast
qed


end
